theory Spec2Isabelle
  imports Complex_Main
begin

section \<open>The gateway (backend-nestjs, chat.service.ts)\<close>

subsection \<open>Values\<close>

text \<open>
  A JavaScript string is a list of characters. A finite JavaScript number is a rational:
  the gateway only compares numbers (\<open>> 0\<close>, \<open><= 0\<close>, \<open>includes\<close>) and never computes
  with them, and every number that reaches a comparison is finite (the body's \<open>store_id\<close>
  passes \<open>@IsInt()\<close>, the claims of the token pass \<open>Number.isFinite\<close>).
\<close>

type_synonym number = rat

text \<open>
  What \<open>jwt.verify\<close> decodes: JSON values. \<open>JUndefined\<close> is a missing property,
  \<open>JNonFinite\<close> a number that is not finite.
\<close>

datatype json =
    JUndefined
  | JNull
  | JBool bool
  | JNum number
  | JNonFinite
  | JStr string
  | JArr "json list"
  | JObj "(string \<times> json) list"

text \<open>The decoded payload, by claim name; a payload that is no JSON object has no claims.\<close>

type_synonym decoded = "string \<rightharpoonup> json"

definition claim :: "decoded \<Rightarrow> string \<Rightarrow> json" where
  "claim d k = (case d k of None \<Rightarrow> JUndefined | Some v \<Rightarrow> v)"

text \<open>White space as \<open>\s\<close> and \<open>String.prototype.trim\<close> see it, and the line terminators
  that \<open>.\<close> does not match, among the characters below 256.\<close>

definition is_space :: "char \<Rightarrow> bool" where
  "is_space c = (c \<in> set [CHR 0x09, CHR 0x0A, CHR 0x0B, CHR 0x0C, CHR 0x0D, CHR 0x20, CHR 0xA0])"

definition is_line_terminator :: "char \<Rightarrow> bool" where
  "is_line_terminator c = (c = CHR 0x0A \<or> c = CHR 0x0D)"

definition trim :: "string \<Rightarrow> string" where
  "trim s = rev (dropWhile is_space (rev (dropWhile is_space s)))"

text \<open>Lower case for the letters A to Z; the results are only compared with ASCII words.\<close>

definition lower_char :: "char \<Rightarrow> char" where
  "lower_char c =
     (case map_of (zip ''ABCDEFGHIJKLMNOPQRSTUVWXYZ'' ''abcdefghijklmnopqrstuvwxyz'') c of
        Some l \<Rightarrow> l
      | None \<Rightarrow> c)"

definition toLowerCase :: "string \<Rightarrow> string" where
  "toLowerCase s = map lower_char s"

text \<open>\<open>a || b\<close> on optional strings: the empty string and \<open>undefined\<close> are falsy.\<close>

definition truthy :: "string option \<Rightarrow> bool" where
  "truthy a = (case a of None \<Rightarrow> False | Some s \<Rightarrow> s \<noteq> [])"

definition or_str :: "string option \<Rightarrow> string option \<Rightarrow> string option" where
  "or_str a b = (if truthy a then a else b)"

text \<open>\<open>a || 'default'\<close>\<close>

definition or_else :: "string option \<Rightarrow> string \<Rightarrow> string" where
  "or_else a d = (case a of None \<Rightarrow> d | Some s \<Rightarrow> if s = [] then d else s)"

text \<open>Truthiness of a JSON value (a parsed number is never \<open>NaN\<close>).\<close>

fun js_truthy :: "json \<Rightarrow> bool" where
  "js_truthy JUndefined = False"
| "js_truthy JNull = False"
| "js_truthy (JBool b) = b"
| "js_truthy (JNum q) = (q \<noteq> 0)"
| "js_truthy (JStr s) = (s \<noteq> [])"
| "js_truthy v = True"

subsection \<open>Types of chat.service.ts and chat.dto.ts\<close>

record UserContext =
  role :: string
  store_id :: number
  allowed_views :: "string list"

record JwtContext =
  jwt_role :: "string option"
  jwt_store_id :: "number option"
  jwt_store_ids :: "number list option"
  jwt_is_all_stores :: "bool option"
  jwt_org_id :: "string option"
  jwt_user_id :: "string option"

record ChatRequestDto =
  question :: string
  body_role :: "string option"
  body_store_id :: "number option"
  body_conversation_id :: "string option"
  body_org_id :: "string option"
  body_user_id :: "string option"

text \<open>The body of the internal \<open>POST /run\<close>.\<close>

record RequestBody =
  conversation_id :: string
  rb_question :: string
  org_id :: string
  user_id :: string
  user_context :: UserContext

record HttpRequest =
  url :: string
  req_body :: RequestBody
  headers :: "(string \<times> string) list"

text \<open>
  What a failed \<open>httpService.post\<close> throws, read as the \<open>catch\<close> blocks read it
  (\<open>error as AxiosError<{ detail?: string }>\<close>): \<open>code\<close>, and \<open>response\<close> with its
  \<open>status\<close> and \<open>data?.detail\<close>. An error that is no AxiosError has neither. The cast
  checks nothing at run time, so \<open>detail\<close> is whatever JSON value the internal service
  sent, \<open>JUndefined\<close> when there is none.
\<close>

record ErrorResponse =
  status :: nat
  detail :: json

record AxiosError =
  code :: "string option"
  response :: "ErrorResponse option"

text \<open>\<open>{ ...response, conversation_id: conversationId }\<close>\<close>

record Payload =
  response_data :: json
  payload_conversation_id :: string

text \<open>
  The exceptions the gateway throws. The four built-in NestJS exceptions are built from a
  message; \<open>HttpException\<close> is built from a response object and a status.
\<close>

datatype exn =
    InternalServerErrorException string
  | BadRequestException string
  | UnauthorizedException string
  | ForbiddenException string
  | HttpException "(string \<times> json) list" nat



text \<open>The configuration the service reads through \<open>ConfigService.get\<close>, defaults applied.\<close>

record Config =
  AGNO_URL :: string
  INTERNAL_TOKEN :: string
  JWT_SECRET :: string

text \<open>
  The collaborators outside the repository: \<open>jwt.verify token secret\<close> (\<open>None\<close> when it
  throws), JavaScript's \<open>Number(v)\<close> on a value that is no number (\<open>None\<close> when the
  result is not finite), the identifier \<open>uuidv4()\<close> draws, and the outcome of the
  \<open>n\<close>-th \<open>httpService.post\<close> of the process.
\<close>

record Env =
  jwt_verify :: "string \<Rightarrow> string \<Rightarrow> decoded option"
  js_Number :: "json \<Rightarrow> number option"
  uuidv4 :: string
  post :: "nat \<Rightarrow> HttpRequest \<Rightarrow> AxiosError + json"

text \<open>The state the service changes: the posts made so far and the result store.\<close>

record World =
  http_calls :: "HttpRequest list"
  results :: "string \<rightharpoonup> Payload"

subsection \<open>ChatService\<close>

definition view_catalog :: "string set" where
  "view_catalog = {''v_payment_scoped'', ''v_customer_masked'', ''v_rental_scoped''}"

definition valid_roles :: "string list" where
  "valid_roles = [''admin'', ''store_manager'', ''marketing'', ''finance'']"

definition getAllowedViews :: "string \<Rightarrow> string list" where
  "getAllowedViews r =
     (if r = ''admin'' then [''v_payment_scoped'', ''v_customer_masked'', ''v_rental_scoped'']
      else if r = ''store_manager'' then [''v_payment_scoped'', ''v_rental_scoped'']
      else if r = ''marketing'' then [''v_customer_masked'']
      else if r = ''finance'' then [''v_payment_scoped'']
      else [])"

fun toStringClaim :: "json \<Rightarrow> string option" where
  "toStringClaim (JStr s) = (if trim s \<noteq> [] then Some (trim s) else None)"
| "toStringClaim v = None"

fun toNumberClaim :: "Env \<Rightarrow> json \<Rightarrow> number option" where
  "toNumberClaim env (JNum q) = Some q"
| "toNumberClaim env (JStr s) = js_Number env (JStr s)"
| "toNumberClaim env v = None"

fun item_number :: "Env \<Rightarrow> json \<Rightarrow> number option" where
  "item_number env (JNum q) = Some q"
| "item_number env JNonFinite = None"
| "item_number env v = js_Number env v"

fun toNumberArrayClaim :: "Env \<Rightarrow> json \<Rightarrow> number list option" where
  "toNumberArrayClaim env (JArr items) = Some (List.map_filter (item_number env) items)"
| "toNumberArrayClaim env v = None"

fun toBooleanClaim :: "json \<Rightarrow> bool option" where
  "toBooleanClaim (JBool b) = Some b"
| "toBooleanClaim (JStr s) =
     (if toLowerCase s = ''true'' then Some True
      else if toLowerCase s = ''false'' then Some False
      else None)"
| "toBooleanClaim v = None"

text \<open>
  \<open>authorizationHeader.match(/^Bearer\s+(.+)$/i)\<close>: the captured group, if the header
  matches. After the six letters, \<open>\s+\<close> takes as much white space as it can while
  leaving one character for \<open>(.+)\<close>, which runs to the end and meets no line terminator.
\<close>

definition bearer_match :: "string \<Rightarrow> string option" where
  "bearer_match h =
     (let s = drop 6 h;
          k = min (length (takeWhile is_space s)) (length s - 1)
      in if toLowerCase (take 6 h) = ''bearer'' \<and> 1 \<le> k
            \<and> \<not> list_ex is_line_terminator (drop k s)
         then Some (drop k s) else None)"

definition extractContextFromJwt :: "Env \<Rightarrow> Config \<Rightarrow> string \<Rightarrow> exn + JwtContext" where
  "extractContextFromJwt env cfg authorizationHeader =
     (if authorizationHeader = [] then
        Inr \<lparr>jwt_role = None, jwt_store_id = None, jwt_store_ids = None,
             jwt_is_all_stores = None, jwt_org_id = None, jwt_user_id = None\<rparr>
      else
        (case bearer_match authorizationHeader of
           None \<Rightarrow> Inl (UnauthorizedException ''Invalid Authorization header format.'')
         | Some m \<Rightarrow>
             if JWT_SECRET cfg = [] then
               Inl (InternalServerErrorException ''JWT_SECRET is not configured.'')
             else
               (case jwt_verify env (trim m) (JWT_SECRET cfg) of
                  None \<Rightarrow> Inl (UnauthorizedException ''Invalid JWT token.'')
                | Some d \<Rightarrow>
                    Inr \<lparr>jwt_role = toStringClaim (claim d ''role''),
                         jwt_store_id = toNumberClaim env (claim d ''store_id''),
                         jwt_store_ids = toNumberArrayClaim env (claim d ''store_ids''),
                         jwt_is_all_stores = toBooleanClaim (claim d ''is_all_stores''),
                         jwt_org_id = toStringClaim (claim d ''org_id''),
                         jwt_user_id = or_str (toStringClaim (claim d ''user_id''))
                                              (toStringClaim (claim d ''sub''))\<rparr>)))"

definition scoped_role :: "string \<Rightarrow> bool" where
  "scoped_role r = (r = ''store_manager'' \<or> r = ''marketing'' \<or> r = ''finance'')"

definition resolveStoreId :: "string \<Rightarrow> number \<Rightarrow> JwtContext \<Rightarrow> exn + number" where
  "resolveStoreId r requestedStoreId jwtContext =
     (let hasJwtScope = (truthy (jwt_role jwtContext) \<or> truthy (jwt_user_id jwtContext)
                         \<or> jwt_store_ids jwtContext \<noteq> None)
      in if \<not> hasJwtScope then
           (let fallbackStore = (case jwt_store_id jwtContext of
                                   Some n \<Rightarrow> n | None \<Rightarrow> requestedStoreId)
            in if scoped_role r \<and> fallbackStore \<le> 0
               then Inl (BadRequestException ''store_id is required for this role.'')
               else Inr fallbackStore)
         else if jwt_is_all_stores jwtContext = Some True \<or> r = ''admin'' then
           Inr (if requestedStoreId > 0 then requestedStoreId
                else (case jwt_store_id jwtContext of Some n \<Rightarrow> n | None \<Rightarrow> 0))
         else
           (case (case jwt_store_ids jwtContext of Some l \<Rightarrow> l | None \<Rightarrow> []) of
              [] \<Rightarrow> Inl (ForbiddenException ''No store access configured for this user.'')
            | first # others \<Rightarrow>
                if requestedStoreId > 0 \<and> requestedStoreId \<notin> set (first # others)
                then Inl (ForbiddenException ''Requested store is outside your access scope.'')
                else Inr (if requestedStoreId > 0 then requestedStoreId else first)))"

text \<open>
  Lines 98 to 122 of \<open>forwardToAgno\<close>: from the body and the header to the body of the
  internal request, or the exception thrown on the way.
\<close>

definition buildRequestBody :: "Env \<Rightarrow> Config \<Rightarrow> ChatRequestDto \<Rightarrow> string \<Rightarrow> exn + RequestBody" where
  "buildRequestBody env cfg body authorizationHeader =
     (case extractContextFromJwt env cfg authorizationHeader of
        Inl e \<Rightarrow> Inl e
      | Inr jwtContext \<Rightarrow>
          (case or_str (jwt_role jwtContext) (body_role body) of
             None \<Rightarrow> Inl (BadRequestException ''role is required (from JWT or request body).'')
           | Some r \<Rightarrow>
               (if r = [] then
                  Inl (BadRequestException ''role is required (from JWT or request body).'')
                else if r \<notin> set valid_roles then
                  Inl (BadRequestException ''Invalid role in JWT/body.'')
                else
                  (case resolveStoreId r
                          (case body_store_id body of Some n \<Rightarrow> n | None \<Rightarrow> 0) jwtContext of
                     Inl e \<Rightarrow> Inl e
                   | Inr storeId \<Rightarrow>
                       Inr \<lparr>conversation_id = or_else (body_conversation_id body) (uuidv4 env),
                            rb_question = question body,
                            org_id = or_else (or_str (jwt_org_id jwtContext) (body_org_id body))
                                       ''default-org'',
                            user_id = or_else (or_str (jwt_user_id jwtContext) (body_user_id body))
                                        ''default-user'',
                            user_context = \<lparr>role = r, store_id = storeId,
                                            allowed_views = getAllowedViews r\<rparr>\<rparr>))))"

definition retryable :: "AxiosError \<Rightarrow> bool" where
  "retryable e =
     (code e = Some ''ECONNABORTED'' \<or> code e = Some ''ECONNRESET'' \<or> code e = Some ''ENOTFOUND''
      \<or> (case response e of None \<Rightarrow> True | Some r \<Rightarrow> 500 \<le> status r \<and> status r \<le> 599))"

definition do_post :: "Env \<Rightarrow> World \<Rightarrow> HttpRequest \<Rightarrow> (AxiosError + json) \<times> World" where
  "do_post env w req =
     (post env (length (http_calls w)) req, w\<lparr>http_calls := http_calls w @ [req]\<rparr>)"

definition postWithSingleRetry ::
  "Env \<Rightarrow> World \<Rightarrow> string \<Rightarrow> RequestBody \<Rightarrow> (string \<times> string) list \<Rightarrow> (AxiosError + json) \<times> World" where
  "postWithSingleRetry env w u b hs =
     (let req = \<lparr>url = u, req_body = b, headers = hs\<rparr>
      in case do_post env w req of
           (Inr data, w1) \<Rightarrow> (Inr data, w1)
         | (Inl e, w1) \<Rightarrow> if \<not> retryable e then (Inl e, w1) else do_post env w1 req)"

text \<open>The \<open>catch\<close> block of \<open>forwardToAgno\<close>.\<close>

definition toHttpException :: "AxiosError \<Rightarrow> exn" where
  "toHttpException e =
     (case response e of
        Some r \<Rightarrow>
          HttpException
            [(''detail'', if js_truthy (detail r) then detail r else JStr ''Agno service error.'')]
            (if status r = 0 then 502 else status r)
      | None \<Rightarrow>
          if code e = Some ''ECONNABORTED''
          then HttpException [(''detail'', JStr ''Agno service timeout.'')] 504
          else HttpException [(''detail'', JStr ''Failed to reach Agno service.'')] 502)"

definition forwardToAgno ::
  "Env \<Rightarrow> Config \<Rightarrow> World \<Rightarrow> ChatRequestDto \<Rightarrow> string \<Rightarrow> string \<Rightarrow> (exn + Payload) \<times> World" where
  "forwardToAgno env cfg w body correlationId authorizationHeader =
     (if INTERNAL_TOKEN cfg = [] then
        (Inl (InternalServerErrorException ''INTERNAL_TOKEN is not configured.''), w)
      else
        (case buildRequestBody env cfg body authorizationHeader of
           Inl e \<Rightarrow> (Inl e, w)
         | Inr requestBody \<Rightarrow>
             (case postWithSingleRetry env w (AGNO_URL cfg @ ''/run'') requestBody
                     [(''X-Internal-Token'', INTERNAL_TOKEN cfg), (''x-correlation-id'', correlationId)] of
                (Inr data, w1) \<Rightarrow>
                  (let payload = \<lparr>response_data = data,
                                  payload_conversation_id = conversation_id requestBody\<rparr>
                   in (Inr payload,
                       w1\<lparr>results := (results w1)(conversation_id requestBody \<mapsto> payload)\<rparr>))
              | (Inl e, w1) \<Rightarrow> (Inl (toHttpException e), w1))))"

text \<open>The requests one call of \<open>forwardToAgno\<close> posts, and the contexts they carry.\<close>

definition forwarded ::
  "Env \<Rightarrow> Config \<Rightarrow> World \<Rightarrow> ChatRequestDto \<Rightarrow> string \<Rightarrow> string \<Rightarrow> HttpRequest list" where
  "forwarded env cfg w body correlationId authorizationHeader =
     drop (length (http_calls w))
       (http_calls (snd (forwardToAgno env cfg w body correlationId authorizationHeader)))"

definition forwarded_contexts ::
  "Env \<Rightarrow> Config \<Rightarrow> World \<Rightarrow> ChatRequestDto \<Rightarrow> string \<Rightarrow> string \<Rightarrow> UserContext list" where
  "forwarded_contexts env cfg w body correlationId authorizationHeader =
     map (user_context \<circ> req_body) (forwarded env cfg w body correlationId authorizationHeader)"

subsection \<open>Example requests\<close>

text \<open>
  A configured service, a signed token \<open>''token''\<close> that decodes to \<open>d\<close>, and an internal
  service that answers every post with \<open>outcome\<close>.
\<close>

definition example_cfg :: Config where
  "example_cfg = \<lparr>AGNO_URL = ''http://agno-python:8000'', INTERNAL_TOKEN = ''internal'',
                   JWT_SECRET = ''secret''\<rparr>"

definition example_env :: "decoded \<Rightarrow> AxiosError + json \<Rightarrow> Env" where
  "example_env d outcome =
     \<lparr>jwt_verify = (\<lambda>t s. if t = ''token'' \<and> s = ''secret'' then Some d else None),
      js_Number = (\<lambda>v. None),
      uuidv4 = ''3f2b8c1e-0000-4000-8000-000000000000'',
      post = (\<lambda>n req. outcome)\<rparr>"

definition example_world :: World where
  "example_world = \<lparr>http_calls = [], results = Map.empty\<rparr>"

definition example_body :: "string option \<Rightarrow> number option \<Rightarrow> ChatRequestDto" where
  "example_body r s =
     \<lparr>question = ''count payments'', body_role = r, body_store_id = s,
      body_conversation_id = None, body_org_id = None, body_user_id = None\<rparr>"

section \<open>ValidationStage\<close>

text \<open>
  The validator (\<open>agno-python/app/sql_validator.py\<close>) is not among the sources. Its model
  follows section 4.3 of the specification, rule by rule, as a lexical scan.
\<close>

datatype reason_code =
    multi_statement
  | forbidden_keyword
  | not_read_only
  | view_not_allowed
  | limit_exceeded

text \<open>Modelled from the spec: the ValidationVerdict of section 3,
  \<open>{accepted, final_sql (iff accepted), reason_code (iff rejected), rewritten}\<close>.\<close>

record ValidationVerdict =
  accepted :: bool
  final_sql :: "string option"
  reason_code :: "reason_code option"
  rewritten :: bool

definition accept :: "string \<Rightarrow> bool \<Rightarrow> ValidationVerdict" where
  "accept sql rw = \<lparr>accepted = True, final_sql = Some sql, reason_code = None, rewritten = rw\<rparr>"

definition reject :: "reason_code \<Rightarrow> ValidationVerdict" where
  "reject r = \<lparr>accepted = False, final_sql = None, reason_code = Some r, rewritten = False\<rparr>"

text \<open>Modelled from the spec: the tokens of the lexical scan, which the spec leaves open
  (section 9: whole-word matching). A word is a maximal run of letters, digits and
  underscores; white space separates; any other character is a token of its own.\<close>

datatype token = Word string | Sym char

definition is_word_char :: "char \<Rightarrow> bool" where
  "is_word_char c =
     (c \<in> set ''abcdefghijklmnopqrstuvwxyzABCDEFGHIJKLMNOPQRSTUVWXYZ0123456789_'')"

definition is_digit :: "char \<Rightarrow> bool" where
  "is_digit c = (c \<in> set ''0123456789'')"

definition flush :: "string \<Rightarrow> token list" where
  "flush w = (if w = [] then [] else [Word w])"

fun lex :: "string \<Rightarrow> string \<Rightarrow> token list" where
  "lex w [] = flush w"
| "lex w (c # cs) =
     (if is_word_char c then lex (w @ [c]) cs
      else flush w @ (if is_space c then [] else [Sym c]) @ lex [] cs)"

definition tokens :: "string \<Rightarrow> token list" where
  "tokens s = lex [] s"

definition keyword :: "string \<Rightarrow> token \<Rightarrow> bool" where
  "keyword k t = (case t of Word w \<Rightarrow> toLowerCase w = k | Sym c \<Rightarrow> False)"

text \<open>Modelled from the spec: rule 1, "Normalize: strip one trailing terminator"; the
  statement is what is left, without the white space around it.\<close>

definition strip_terminator :: "string \<Rightarrow> string" where
  "strip_terminator raw =
     (let t = trim raw
      in if t \<noteq> [] \<and> last t = CHR '';'' then trim (butlast t) else t)"

text \<open>Modelled from the spec: rule 2, the fixed mutation and DDL set "(insert, update,
  delete, drop, alter, create, grant, revoke, truncate, copy, ...)"; the ten words are
  those the README of the service lists under "Blocks".\<close>

definition forbidden_keywords :: "string list" where
  "forbidden_keywords =
     [''insert'', ''update'', ''delete'', ''drop'', ''alter'', ''create'', ''grant'', ''revoke'',
      ''truncate'', ''copy'']"

definition has_forbidden :: "token list \<Rightarrow> bool" where
  "has_forbidden ts = list_ex (\<lambda>t. list_ex (\<lambda>k. keyword k t) forbidden_keywords) ts"

text \<open>Modelled from the spec: rule 3, "statement must begin with select, or with
  eventually followed by select".\<close>

definition read_only_shape :: "token list \<Rightarrow> bool" where
  "read_only_shape ts =
     (case ts of
        [] \<Rightarrow> False
      | t # rest \<Rightarrow> keyword ''select'' t \<or> (keyword ''with'' t \<and> list_ex (keyword ''select'') rest))"

text \<open>Modelled from the spec: rule 4, "lexically extract identifiers following
  from/join". An identifier is a word that does not start with a digit.\<close>

definition is_identifier :: "string \<Rightarrow> bool" where
  "is_identifier v = (v \<noteq> [] \<and> \<not> is_digit (hd v))"

fun referenced_views :: "token list \<Rightarrow> string list" where
  "referenced_views (k # Word v # ts) =
     (if (keyword ''from'' k \<or> keyword ''join'' k) \<and> is_identifier v
      then v # referenced_views (Word v # ts)
      else referenced_views (Word v # ts))"
| "referenced_views (k # ts) = referenced_views ts"
| "referenced_views [] = []"

text \<open>Modelled from the spec: rule 5, the values of the \<open>limit\<close> clauses: each number
  that follows the word \<open>limit\<close>.\<close>

definition digit_value :: "char \<Rightarrow> nat" where
  "digit_value c =
     (case map_of (zip ''0123456789'' [0, 1, 2, 3, 4, 5, 6, 7, 8, 9]) c of
        Some n \<Rightarrow> n
      | None \<Rightarrow> 0)"

definition number_value :: "string \<Rightarrow> nat" where
  "number_value v = foldl (\<lambda>n c. 10 * n + digit_value c) 0 v"

fun limit_values :: "token list \<Rightarrow> nat list" where
  "limit_values (k # Word v # ts) =
     (if keyword ''limit'' k \<and> list_all is_digit v
      then number_value v # limit_values (Word v # ts)
      else limit_values (Word v # ts))"
| "limit_values (k # ts) = limit_values ts"
| "limit_values [] = []"

text \<open>Modelled from the spec: \<open>validate(rawSql, allowed_views) -> ValidationVerdict\<close> of
  section 4.3, "rules applied in strict order, first violation short-circuits rejection".\<close>

definition validate :: "string \<Rightarrow> string set \<Rightarrow> ValidationVerdict" where
  "validate rawSql allowed =
     (let stmt = strip_terminator rawSql; ts = tokens stmt
      in if CHR '';'' \<in> set stmt then reject multi_statement
         else if has_forbidden ts then reject forbidden_keyword
         else if \<not> read_only_shape ts then reject not_read_only
         else if \<not> list_all (\<lambda>v. v \<in> allowed) (referenced_views ts)
           then reject view_not_allowed
         else if limit_values ts = [] then accept (stmt @ '' LIMIT 200'') True
         else if list_ex (\<lambda>n. 200 < n) (limit_values ts) then reject limit_exceeded
         else accept stmt False)"

text \<open>The first four rules alone.\<close>

definition passes_rules_1_to_4 :: "string \<Rightarrow> string set \<Rightarrow> bool" where
  "passes_rules_1_to_4 rawSql allowed =
     (let stmt = strip_terminator rawSql; ts = tokens stmt
      in CHR '';'' \<notin> set stmt \<and> \<not> has_forbidden ts \<and> read_only_shape ts
         \<and> list_all (\<lambda>v. v \<in> allowed) (referenced_views ts))"

text \<open>A statement that ends with the word \<open>from\<close> or \<open>join\<close>.\<close>

definition dangling_join :: "token list \<Rightarrow> bool" where
  "dangling_join ts = (ts \<noteq> [] \<and> (keyword ''from'' (last ts) \<or> keyword ''join'' (last ts)))"

section \<open>GenerationStage\<close>

text \<open>
  The generation workflow (\<open>agno-python/app/workflow.py\<close>) is not among the sources. Its
  model follows sections 3 and 4.2 of the specification.
\<close>

text \<open>Modelled from the spec: GeneratedSql \<open>{raw_text, intent}\<close> and ModelAttempt
  \<open>{model_name, started_at, duration_ms, outcome, token_usage}\<close> of section 3.\<close>

record GeneratedSql =
  raw_text :: string
  intent :: string

datatype outcome = success | rate_limited | timeout | malformed | error

record ModelAttempt =
  model_name :: string
  started_at :: nat
  duration_ms :: nat
  outcome :: outcome
  token_usage :: nat

text \<open>Modelled from the spec: the provider contract of section 6,
  \<open>complete(prompt, model_name, timeout) -> {text, usage}\<close>, with the ways it fails in
  section 4.2 (rate-limit or payment-required status, timeout, network error). The
  provider is outside the pipeline: \<open>provider n prompt m\<close> is what the \<open>n\<close>-th call of a run
  returns when it asks model \<open>m\<close>.\<close>

datatype completion = Completed string | RateLimited | TimedOut | NetworkError

record ProviderReply =
  started :: nat
  elapsed_ms :: nat
  completion :: completion
  usage :: nat

type_synonym provider = "nat \<Rightarrow> string \<Rightarrow> string \<Rightarrow> ProviderReply"

text \<open>Modelled from the spec: how one attempt ends. \<open>parse\<close> decodes the text of a
  completion; \<open>None\<close> is a structurally invalid response (missing SQL, multiple statements,
  empty text).\<close>

definition classify ::
  "(string \<Rightarrow> GeneratedSql option) \<Rightarrow> completion \<Rightarrow> outcome \<times> GeneratedSql option" where
  "classify parse c =
     (case c of
        Completed text \<Rightarrow>
          (case parse text of None \<Rightarrow> (malformed, None) | Some g \<Rightarrow> (success, Some g))
      | RateLimited \<Rightarrow> (rate_limited, None)
      | TimedOut \<Rightarrow> (timeout, None)
      | NetworkError \<Rightarrow> (error, None))"

text \<open>Modelled from the spec: the ModelAttempt recorded for the \<open>n\<close>-th call, on model
  \<open>m\<close>.\<close>

definition attempt_of ::
  "provider \<Rightarrow> (string \<Rightarrow> GeneratedSql option) \<Rightarrow> string \<Rightarrow> nat \<Rightarrow> string \<Rightarrow> ModelAttempt" where
  "attempt_of p parse prompt n m =
     \<lparr>model_name = m, started_at = started (p n prompt m),
      duration_ms = elapsed_ms (p n prompt m),
      outcome = fst (classify parse (completion (p n prompt m))),
      token_usage = usage (p n prompt m)\<rparr>"

text \<open>Modelled from the spec: the fallback loop of section 4.2, "on failure, immediately
  try the next candidate"; "on success: first successful attempt's parsed SQL/intent plus
  the complete attempt list".\<close>

fun try_candidates ::
  "provider \<Rightarrow> (string \<Rightarrow> GeneratedSql option) \<Rightarrow> string \<Rightarrow> nat \<Rightarrow> string list
     \<Rightarrow> ModelAttempt list \<times> GeneratedSql option" where
  "try_candidates p parse prompt n [] = ([], None)"
| "try_candidates p parse prompt n (m # ms) =
     (case snd (classify parse (completion (p n prompt m))) of
        Some g \<Rightarrow> ([attempt_of p parse prompt n m], Some g)
      | None \<Rightarrow>
          (case try_candidates p parse prompt (Suc n) ms of
             (attempts, result) \<Rightarrow> (attempt_of p parse prompt n m # attempts, result)))"

datatype generation_error = generation_exhausted

text \<open>Modelled from the spec: \<open>generate\<close> of section 4.2 over the ordered candidates, "one
  primary model then N fallbacks"; "if all candidates fail: terminal
  \<open>generation_exhausted\<close> error, full attempt trace still returned".\<close>

definition generate ::
  "provider \<Rightarrow> (string \<Rightarrow> GeneratedSql option) \<Rightarrow> string \<Rightarrow> string list \<Rightarrow> string
     \<Rightarrow> (generation_error + GeneratedSql) \<times> ModelAttempt list" where
  "generate p parse primary fallbacks prompt =
     (case try_candidates p parse prompt 0 (primary # fallbacks) of
        (attempts, Some g) \<Rightarrow> (Inr g, attempts)
      | (attempts, None) \<Rightarrow> (Inl generation_exhausted, attempts))"

text \<open>Example providers: one that times out on every model, and one on which only the
  model \<open>''fallback-1''\<close> answers.\<close>

definition always_timeout :: provider where
  "always_timeout n prompt m = \<lparr>started = n, elapsed_ms = 30000, completion = TimedOut, usage = 0\<rparr>"

definition second_answers :: provider where
  "second_answers n prompt m =
     \<lparr>started = n, elapsed_ms = 120,
      completion = (if m = ''fallback-1'' then Completed ''SELECT 1'' else RateLimited),
      usage = 7\<rparr>"

definition example_parse :: "string \<Rightarrow> GeneratedSql option" where
  "example_parse text = (if text = [] then None else Some \<lparr>raw_text = text, intent = ''metric''\<rparr>)"

section \<open>Properties of the gateway\<close>

subsection \<open>What a call forwards\<close>

lemmas example_defs =
  example_cfg_def example_env_def example_world_def example_body_def

lemmas gateway_defs =
  forwarded_contexts_def forwarded_def forwardToAgno_def buildRequestBody_def
  extractContextFromJwt_def bearer_match_def toLowerCase_def lower_char_def is_space_def
  is_line_terminator_def trim_def claim_def or_str_def or_else_def truthy_def valid_roles_def
  resolveStoreId_def scoped_role_def postWithSingleRetry_def do_post_def retryable_def
  toHttpException_def getAllowedViews_def Let_def List.map_filter_def

lemma buildRequestBody_Inr:
  assumes "buildRequestBody env cfg body auth = Inr rb"
  obtains ctx r sid where
    "extractContextFromJwt env cfg auth = Inr ctx"
    "or_str (jwt_role ctx) (body_role body) = Some r" "r \<noteq> []" "r \<in> set valid_roles"
    "resolveStoreId r (case body_store_id body of Some n \<Rightarrow> n | None \<Rightarrow> 0) ctx = Inr sid"
    "user_context rb = \<lparr>role = r, store_id = sid, allowed_views = getAllowedViews r\<rparr>"
proof -
  from assms obtain ctx where c: "extractContextFromJwt env cfg auth = Inr ctx"
    unfolding buildRequestBody_def by (cases "extractContextFromJwt env cfg auth") auto
  from assms c obtain r where r: "or_str (jwt_role ctx) (body_role body) = Some r"
    unfolding buildRequestBody_def
    by (cases "or_str (jwt_role ctx) (body_role body)") auto
  from assms c r have ne: "r \<noteq> []" and v: "r \<in> set valid_roles"
    unfolding buildRequestBody_def by (auto split: if_splits)
  from assms c r ne v obtain sid where
    s: "resolveStoreId r (case body_store_id body of Some n \<Rightarrow> n | None \<Rightarrow> 0) ctx = Inr sid"
    and u: "user_context rb = \<lparr>role = r, store_id = sid, allowed_views = getAllowedViews r\<rparr>"
    unfolding buildRequestBody_def by (auto split: sum.splits)
  from that c r ne v s u show thesis by simp
qed

lemma forwardToAgno_returns:
  assumes "fst (forwardToAgno env cfg w body cid auth) = Inr p"
  shows "forwarded env cfg w body cid auth \<noteq> []"
proof -
  from assms have tok: "INTERNAL_TOKEN cfg \<noteq> []"
    by (auto simp: forwardToAgno_def split: if_splits)
  with assms obtain rb where rb: "buildRequestBody env cfg body auth = Inr rb"
    by (cases "buildRequestBody env cfg body auth") (auto simp: forwardToAgno_def)
  let ?hs = "[(''X-Internal-Token'', INTERNAL_TOKEN cfg), (''x-correlation-id'', cid)]"
  let ?p = "postWithSingleRetry env w (AGNO_URL cfg @ ''/run'') rb ?hs"
  have "http_calls (snd (forwardToAgno env cfg w body cid auth)) = http_calls (snd ?p)"
    using tok rb by (simp add: forwardToAgno_def Let_def split: prod.splits sum.splits)
  moreover have "length (http_calls (snd ?p)) > length (http_calls w)"
    by (auto simp: postWithSingleRetry_def do_post_def Let_def split: sum.splits)
  ultimately show ?thesis by (simp add: forwarded_def)
qed

lemma postWithSingleRetry_calls:
  "\<exists>k \<in> {1, 2}. http_calls (snd (postWithSingleRetry env w u b hs))
      = http_calls w @ replicate k \<lparr>url = u, req_body = b, headers = hs\<rparr>"
  by (auto simp: postWithSingleRetry_def do_post_def Let_def numeral_2_eq_2 split: sum.splits)

lemma postWithSingleRetry_results:
  "results (snd (postWithSingleRetry env w u b hs)) = results w"
  by (auto simp: postWithSingleRetry_def do_post_def Let_def split: sum.splits)

lemma forwardToAgno_throws_early:
  assumes "INTERNAL_TOKEN cfg \<noteq> []" "buildRequestBody env cfg body auth = Inl e"
  shows "forwardToAgno env cfg w body cid auth = (Inl e, w)"
  using assms by (simp add: forwardToAgno_def)

lemma forwardToAgno_unconfigured:
  assumes "INTERNAL_TOKEN cfg = []"
  shows "forwardToAgno env cfg w body cid auth
           = (Inl (InternalServerErrorException ''INTERNAL_TOKEN is not configured.''), w)"
  using assms by (simp add: forwardToAgno_def)

lemma forwardToAgno_posts:
  assumes "INTERNAL_TOKEN cfg \<noteq> []" "buildRequestBody env cfg body auth = Inr rb"
  shows "forwardToAgno env cfg w body cid auth =
     (case postWithSingleRetry env w (AGNO_URL cfg @ ''/run'') rb
              [(''X-Internal-Token'', INTERNAL_TOKEN cfg), (''x-correlation-id'', cid)] of
        (Inr data, w1) \<Rightarrow>
          (Inr \<lparr>response_data = data, payload_conversation_id = conversation_id rb\<rparr>,
           w1\<lparr>results := (results w1)(conversation_id rb \<mapsto>
                 \<lparr>response_data = data, payload_conversation_id = conversation_id rb\<rparr>)\<rparr>)
      | (Inl err, w1) \<Rightarrow> (Inl (toHttpException err), w1))"
  using assms by (simp add: forwardToAgno_def Let_def split: prod.splits sum.splits)

lemma forwarded_requests:
  assumes "req \<in> set (forwarded env cfg w body cid auth)"
  obtains rb where "INTERNAL_TOKEN cfg \<noteq> []" "buildRequestBody env cfg body auth = Inr rb"
    "req_body req = rb"
proof (cases "INTERNAL_TOKEN cfg = []")
  case True
  with assms show thesis by (simp add: forwarded_def forwardToAgno_unconfigured)
next
  case tok: False
  show thesis
  proof (cases "buildRequestBody env cfg body auth")
    case (Inl e)
    with assms tok show thesis by (simp add: forwarded_def forwardToAgno_throws_early)
  next
    case (Inr rb)
    let ?hs = "[(''X-Internal-Token'', INTERNAL_TOKEN cfg), (''x-correlation-id'', cid)]"
    let ?p = "postWithSingleRetry env w (AGNO_URL cfg @ ''/run'') rb ?hs"
    have "http_calls (snd (forwardToAgno env cfg w body cid auth)) = http_calls (snd ?p)"
      by (simp add: forwardToAgno_posts[OF tok Inr] split: prod.splits sum.splits)
    moreover obtain k where "http_calls (snd ?p)
        = http_calls w @ replicate k \<lparr>url = AGNO_URL cfg @ ''/run'', req_body = rb, headers = ?hs\<rparr>"
      using postWithSingleRetry_calls by blast
    ultimately have "req_body req = rb"
      using assms by (auto simp: forwarded_def)
    with that tok Inr show thesis by blast
  qed
qed

subsection \<open>Allowed views\<close>

text \<open>
  C5. For every role string, the list of views the gateway attaches to the forwarded
  security context is \<open>getAllowedViews role\<close>, it lies within the catalog of the three
  scoped views, and a role outside admin, store_manager, marketing and finance maps to the
  empty list.
\<close>

theorem getAllowedViews_within_catalog:
  "set (getAllowedViews r) \<subseteq> view_catalog
   \<and> (r \<notin> set valid_roles \<longrightarrow> getAllowedViews r = [])
   \<and> (\<forall>uc \<in> set (forwarded_contexts env cfg w body cid auth).
         allowed_views uc = getAllowedViews (role uc) \<and> set (allowed_views uc) \<subseteq> view_catalog)"
proof -
  have sub: "set (getAllowedViews x) \<subseteq> view_catalog" for x
    by (auto simp: getAllowedViews_def view_catalog_def)
  have out: "r \<notin> set valid_roles \<longrightarrow> getAllowedViews r = []"
    by (simp add: getAllowedViews_def valid_roles_def)
  have fw: "allowed_views uc = getAllowedViews (role uc)"
    if "uc \<in> set (forwarded_contexts env cfg w body cid auth)" for uc
  proof -
    from that obtain req where req: "req \<in> set (forwarded env cfg w body cid auth)"
      and uc: "uc = user_context (req_body req)"
      by (auto simp: forwarded_contexts_def)
    from req obtain rb where "buildRequestBody env cfg body auth = Inr rb" "req_body req = rb"
      by (rule forwarded_requests)
    then show ?thesis using uc by (elim buildRequestBody_Inr) simp
  qed
  show ?thesis using sub out fw by simp
qed

theorem getAllowedViews_within_catalog_witness:
  "''guest'' \<notin> set valid_roles \<and> getAllowedViews ''guest'' = []
   \<and> set (getAllowedViews ''store_manager'') \<subseteq> view_catalog
   \<and> \<lparr>role = ''finance'', store_id = 1, allowed_views = [''v_payment_scoped'']\<rparr>
       \<in> set (forwarded_contexts
           (example_env [''role'' \<mapsto> JStr ''finance'', ''store_ids'' \<mapsto> JArr [JNum 1]] (Inr JNull))
           example_cfg example_world (example_body None None) ''c1'' ''Bearer token'')
   \<and> set (allowed_views \<lparr>role = ''finance'', store_id = 1,
                             allowed_views = [''v_payment_scoped'']\<rparr>) \<subseteq> view_catalog"
proof -
  let ?env = "example_env [''role'' \<mapsto> JStr ''finance'', ''store_ids'' \<mapsto> JArr [JNum 1]] (Inr JNull)"
  let ?uc = "\<lparr>role = ''finance'', store_id = 1, allowed_views = [''v_payment_scoped'']\<rparr>"
  have g: "''guest'' \<notin> set valid_roles" by (simp add: valid_roles_def)
  have m: "?uc \<in> set (forwarded_contexts ?env example_cfg example_world
                          (example_body None None) ''c1'' ''Bearer token'')"
    by (simp add: example_defs gateway_defs)
  note t = getAllowedViews_within_catalog[where env = "?env" and cfg = example_cfg
      and w = example_world and body = "example_body None None" and cid = "''c1''"
      and auth = "''Bearer token''"]
  from t[where r = "''guest''"] g have "getAllowedViews ''guest'' = []" by blast
  moreover from t[where r = "''store_manager''"]
  have "set (getAllowedViews ''store_manager'') \<subseteq> view_catalog" by blast
  moreover from t[where r = "''guest''"] m
  have "set (allowed_views ?uc) \<subseteq> view_catalog" by blast
  ultimately show ?thesis using g m by blast
qed

subsection \<open>Store scope\<close>

lemma scoped_role_not_admin: "scoped_role r \<Longrightarrow> r \<noteq> ''admin''"
  by (auto simp: scoped_role_def)

lemma resolveStoreId_positive_iff:
  assumes "scoped_role r" and "resolveStoreId r requested ctx = Inr sid"
  shows "0 < sid \<longleftrightarrow>
     \<not> ((truthy (jwt_role ctx) \<or> truthy (jwt_user_id ctx) \<or> jwt_store_ids ctx \<noteq> None)
        \<and> requested \<le> 0
        \<and> (if jwt_is_all_stores ctx = Some True
            then (case jwt_store_id ctx of Some n \<Rightarrow> n \<le> 0 | None \<Rightarrow> True)
            else (case jwt_store_ids ctx of Some (first # others) \<Rightarrow> first \<le> 0 | _ \<Rightarrow> False)))"
  using assms scoped_role_not_admin[of r]
  by (auto simp: resolveStoreId_def Let_def split: if_splits option.splits list.splits)



text \<open>
  C7, as the code has it. The gateway either throws an exception or forwards, and a
  context it forwards with the effective role store_manager, marketing or finance has a
  strictly positive \<open>store_id\<close> in every case but these: the request names no positive
  \<open>store_id\<close>, the verified token carries scope (a role, a user id or a \<open>store_ids\<close>
  list), and either the token is flagged \<open>is_all_stores\<close> and its \<open>store_id\<close> claim is
  absent or not positive, or the token is not flagged \<open>is_all_stores\<close> and the first entry
  of its \<open>store_ids\<close> is not positive. In exactly these cases the forwarded \<open>store_id\<close>
  is not positive.
\<close>

theorem scoped_role_store_positive:
  "((\<exists>e. fst (forwardToAgno env cfg w body cid auth) = Inl e)
      \<or> forwarded_contexts env cfg w body cid auth \<noteq> [])
   \<and> (\<forall>uc \<in> set (forwarded_contexts env cfg w body cid auth).
         scoped_role (role uc) \<longrightarrow>
         (\<exists>ctx. extractContextFromJwt env cfg auth = Inr ctx
            \<and> (0 < store_id uc \<longleftrightarrow>
               \<not> ((truthy (jwt_role ctx) \<or> truthy (jwt_user_id ctx) \<or> jwt_store_ids ctx \<noteq> None)
                  \<and> (case body_store_id body of Some n \<Rightarrow> n | None \<Rightarrow> 0) \<le> 0
                  \<and> (if jwt_is_all_stores ctx = Some True
                      then (case jwt_store_id ctx of Some n \<Rightarrow> n \<le> 0 | None \<Rightarrow> True)
                      else (case jwt_store_ids ctx of
                              Some (first # others) \<Rightarrow> first \<le> 0 | _ \<Rightarrow> False))))))"
proof (intro conjI ballI impI)
  show "(\<exists>e. fst (forwardToAgno env cfg w body cid auth) = Inl e)
          \<or> forwarded_contexts env cfg w body cid auth \<noteq> []"
  proof (cases "fst (forwardToAgno env cfg w body cid auth)")
    case (Inl e)
    then show ?thesis by blast
  next
    case (Inr p)
    then have "forwarded env cfg w body cid auth \<noteq> []" by (rule forwardToAgno_returns)
    then show ?thesis by (simp add: forwarded_contexts_def)
  qed
next
  fix uc
  assume m: "uc \<in> set (forwarded_contexts env cfg w body cid auth)"
    and sc: "scoped_role (role uc)"
  from m obtain req where req: "req \<in> set (forwarded env cfg w body cid auth)"
    and uc: "uc = user_context (req_body req)"
    by (auto simp: forwarded_contexts_def)
  from req obtain rb where rb: "buildRequestBody env cfg body auth = Inr rb" "req_body req = rb"
    by (rule forwarded_requests)
  from rb(1) obtain ctx r sid where x: "extractContextFromJwt env cfg auth = Inr ctx"
    and rs: "resolveStoreId r (case body_store_id body of Some n \<Rightarrow> n | None \<Rightarrow> 0) ctx = Inr sid"
    and u: "user_context rb = \<lparr>role = r, store_id = sid, allowed_views = getAllowedViews r\<rparr>"
    by (rule buildRequestBody_Inr)
  from u rb(2) uc have "role uc = r" "store_id uc = sid" by simp_all
  with sc resolveStoreId_positive_iff[OF _ rs] x
  show "\<exists>ctx. extractContextFromJwt env cfg auth = Inr ctx
            \<and> (0 < store_id uc \<longleftrightarrow>
               \<not> ((truthy (jwt_role ctx) \<or> truthy (jwt_user_id ctx) \<or> jwt_store_ids ctx \<noteq> None)
                  \<and> (case body_store_id body of Some n \<Rightarrow> n | None \<Rightarrow> 0) \<le> 0
                  \<and> (if jwt_is_all_stores ctx = Some True
                      then (case jwt_store_id ctx of Some n \<Rightarrow> n \<le> 0 | None \<Rightarrow> True)
                      else (case jwt_store_ids ctx of
                              Some (first # others) \<Rightarrow> first \<le> 0 | _ \<Rightarrow> False))))"
    by blast
qed

text \<open>
  The claim as stated fails: a store manager whose token says \<open>is_all_stores\<close> and who
  names no store is forwarded, without an exception, with \<open>store_id = 0\<close>; and so is a
  finance user who names no store and whose token lists the stores 0 and 1.
\<close>

theorem scoped_role_store_positive_counterexample:
  "scoped_role ''store_manager''
   \<and> fst (forwardToAgno
          (example_env [''role'' \<mapsto> JStr ''store_manager'', ''is_all_stores'' \<mapsto> JBool True]
             (Inr JNull))
          example_cfg example_world (example_body None None) ''c1'' ''Bearer token'')
      = Inr \<lparr>response_data = JNull,
             payload_conversation_id = ''3f2b8c1e-0000-4000-8000-000000000000''\<rparr>
   \<and> forwarded_contexts
        (example_env [''role'' \<mapsto> JStr ''store_manager'', ''is_all_stores'' \<mapsto> JBool True]
           (Inr JNull))
        example_cfg example_world (example_body None None) ''c1'' ''Bearer token''
      = [\<lparr>role = ''store_manager'', store_id = 0,
          allowed_views = [''v_payment_scoped'', ''v_rental_scoped'']\<rparr>]
   \<and> forwarded_contexts
        (example_env [''role'' \<mapsto> JStr ''finance'', ''store_ids'' \<mapsto> JArr [JNum 0, JNum 1]]
           (Inr JNull))
        example_cfg example_world (example_body None None) ''c1'' ''Bearer token''
      = [\<lparr>role = ''finance'', store_id = 0, allowed_views = [''v_payment_scoped'']\<rparr>]"
  by (simp add: example_defs gateway_defs)

theorem scoped_role_store_positive_witness:
  "extractContextFromJwt
       (example_env [''role'' \<mapsto> JStr ''store_manager'', ''store_ids'' \<mapsto> JArr [JNum 1, JNum 2]]
          (Inr JNull))
       example_cfg ''Bearer token''
     = Inr \<lparr>jwt_role = Some ''store_manager'', jwt_store_id = None, jwt_store_ids = Some [1, 2],
            jwt_is_all_stores = None, jwt_org_id = None, jwt_user_id = None\<rparr>
   \<and> \<lparr>role = ''store_manager'', store_id = 2,
        allowed_views = [''v_payment_scoped'', ''v_rental_scoped'']\<rparr>
       \<in> set (forwarded_contexts
          (example_env [''role'' \<mapsto> JStr ''store_manager'', ''store_ids'' \<mapsto> JArr [JNum 1, JNum 2]]
             (Inr JNull))
          example_cfg example_world (example_body None (Some 2)) ''c1'' ''Bearer token'')
   \<and> (0::rat) < store_id \<lparr>role = ''store_manager'', store_id = 2,
        allowed_views = [''v_payment_scoped'', ''v_rental_scoped'']\<rparr>"
proof -
  let ?env = "example_env [''role'' \<mapsto> JStr ''store_manager'',
                           ''store_ids'' \<mapsto> JArr [JNum 1, JNum 2]] (Inr JNull)"
  let ?ctx = "\<lparr>jwt_role = Some ''store_manager'', jwt_store_id = None, jwt_store_ids = Some [1, 2],
            jwt_is_all_stores = None, jwt_org_id = None, jwt_user_id = None\<rparr>"
  let ?uc = "\<lparr>role = ''store_manager'', store_id = 2,
        allowed_views = [''v_payment_scoped'', ''v_rental_scoped'']\<rparr>"
  have a: "extractContextFromJwt ?env example_cfg ''Bearer token'' = Inr ?ctx"
    by (simp add: example_defs gateway_defs List.map_filter_def)
  have b: "?uc \<in> set (forwarded_contexts ?env example_cfg example_world
                          (example_body None (Some 2)) ''c1'' ''Bearer token'')"
    by (simp add: example_defs gateway_defs List.map_filter_def)
  have c: "scoped_role (role ?uc)" by (simp add: scoped_role_def)
  from scoped_role_store_positive[where env = ?env and cfg = example_cfg and w = example_world
      and body = "example_body None (Some 2)" and cid = "''c1''" and auth = "''Bearer token''"] b c
  obtain ctx where x: "extractContextFromJwt ?env example_cfg ''Bearer token'' = Inr ctx"
    and pos: "0 < store_id ?uc \<longleftrightarrow>
       \<not> ((truthy (jwt_role ctx) \<or> truthy (jwt_user_id ctx) \<or> jwt_store_ids ctx \<noteq> None)
          \<and> (case body_store_id (example_body None (Some 2)) of Some n \<Rightarrow> n | None \<Rightarrow> 0) \<le> 0
          \<and> (if jwt_is_all_stores ctx = Some True
              then (case jwt_store_id ctx of Some n \<Rightarrow> n \<le> 0 | None \<Rightarrow> True)
              else (case jwt_store_ids ctx of
                      Some (first # others) \<Rightarrow> first \<le> 0 | _ \<Rightarrow> False)))"
    by blast
  from x a have "ctx = ?ctx" by simp
  with pos have "0 < store_id ?uc" by (simp add: example_body_def)
  with a b show ?thesis by blast
qed




subsection \<open>The role of a verified token\<close>









subsection \<open>Failures of the internal call\<close>





section \<open>Properties of the validator\<close>

subsection \<open>The scenarios of the specification\<close>

lemma scenario_A:
  "validate ''SELECT amount FROM v_payment_scoped'' {''v_payment_scoped''}
     = accept ''SELECT amount FROM v_payment_scoped LIMIT 200'' True"
  by code_simp

lemma scenario_B:
  "validate ''DELETE FROM payment'' {''v_payment_scoped''} = reject forbidden_keyword"
  by code_simp

lemma scenario_C:
  "validate ''SELECT * FROM customer'' {''v_customer_masked''} = reject view_not_allowed"
  by code_simp

lemma scenario_D:
  "validate ''SELECT a FROM t; SELECT b FROM t2'' {''t'', ''t2''} = reject multi_statement"
  by code_simp

lemma scenario_F:
  "validate ''SELECT count(*) FROM v_rental_scoped LIMIT 5000'' {''v_rental_scoped''}
     = reject limit_exceeded"
  by code_simp

subsection \<open>Appending the limit\<close>

lemma lex_limit_suffix:
  "lex w (s @ '' LIMIT 200'') = lex w s @ [Word ''LIMIT'', Word ''200'']"
proof (induction s arbitrary: w)
  case Nil
  show ?case by (simp add: is_word_char_def is_space_def flush_def)
next
  case (Cons c cs)
  then show ?case by simp
qed

lemma tokens_limit_suffix:
  "tokens (s @ '' LIMIT 200'') = tokens s @ [Word ''LIMIT'', Word ''200'']"
  by (simp add: tokens_def lex_limit_suffix)

lemma keyword_LIMIT [simp]:
  "keyword k (Word ''LIMIT'') = (k = ''limit'')"
  by (auto simp: keyword_def toLowerCase_def lower_char_def)

lemma keyword_200 [simp]:
  "keyword k (Word ''200'') = (k = ''200'')"
  by (auto simp: keyword_def toLowerCase_def lower_char_def)

lemma number_200 [simp]: "number_value ''200'' = 200"
  by (simp add: number_value_def digit_value_def)

lemma limit_values_suffix:
  "limit_values (ts @ [Word ''LIMIT'', Word ''200'']) = limit_values ts @ [200]"
  by (induction ts rule: limit_values.induct) (simp_all add: is_digit_def)

lemma referenced_views_suffix:
  "referenced_views (ts @ [Word ''LIMIT'', Word ''200''])
     = referenced_views ts @ (if dangling_join ts then [''LIMIT''] else [])"
  by (induction ts rule: referenced_views.induct)
     (simp_all add: dangling_join_def is_identifier_def is_digit_def)

lemma has_forbidden_suffix:
  "has_forbidden (ts @ [Word ''LIMIT'', Word ''200'']) = has_forbidden ts"
  by (simp add: has_forbidden_def forbidden_keywords_def)

lemma read_only_shape_suffix:
  "read_only_shape ts \<Longrightarrow> read_only_shape (ts @ us)"
  by (cases ts) (auto simp: read_only_shape_def)

subsection \<open>The normalised statement\<close>

lemma trim_last: "trim s \<noteq> [] \<Longrightarrow> \<not> is_space (last (trim s))"
  unfolding trim_def by (simp add: last_rev hd_dropWhile)

lemma trim_hd: "trim s \<noteq> [] \<Longrightarrow> \<not> is_space (hd (trim s))"
proof -
  assume ne: "trim s \<noteq> []"
  let ?a = "dropWhile is_space s"
  let ?b = "dropWhile is_space (rev ?a)"
  from ne have b: "?b \<noteq> []" by (simp add: trim_def)
  have a: "?a \<noteq> []"
    using b by (metis dropWhile.simps(1) rev.simps(1))
  have "?b = drop (length (takeWhile is_space (rev ?a))) (rev ?a)"
    by (rule dropWhile_eq_drop)
  moreover from b have "length (takeWhile is_space (rev ?a)) < length (rev ?a)"
    by (metis calculation drop_eq_Nil not_le_imp_less)
  ultimately have "last ?b = last (rev ?a)" by (metis last_drop)
  also have "\<dots> = hd ?a" using a by (simp add: last_rev)
  finally have "hd (trim s) = hd ?a" using b by (simp add: trim_def hd_rev)
  with a show ?thesis by (simp add: hd_dropWhile)
qed

lemma trim_id:
  assumes "s \<noteq> []" "\<not> is_space (hd s)" "\<not> is_space (last s)"
  shows "trim s = s"
proof -
  from assms(1,2) have "dropWhile is_space s = s" by (cases s) auto
  moreover from assms(1,3) have "dropWhile is_space (rev s) = rev s"
    by (cases "rev s") (auto simp: hd_rev[symmetric] simp del: rev_is_Nil_conv)
  ultimately show ?thesis by (simp add: trim_def)
qed

lemma strip_terminator_trimmed:
  assumes "strip_terminator raw \<noteq> []"
  shows "\<not> is_space (hd (strip_terminator raw)) \<and> \<not> is_space (last (strip_terminator raw))"
  using assms trim_hd trim_last by (auto simp: strip_terminator_def Let_def split: if_splits)

lemma strip_terminator_fixed:
  assumes "s \<noteq> []" "\<not> is_space (hd s)" "\<not> is_space (last s)" "CHR '';'' \<notin> set s"
  shows "strip_terminator s = s"
proof -
  have "trim s = s" using assms(1-3) by (rule trim_id)
  moreover have "last s \<noteq> CHR '';''" using assms(1,4) last_in_set by metis
  ultimately show ?thesis by (simp add: strip_terminator_def)
qed

lemma read_only_shape_nonempty: "read_only_shape (tokens s) \<Longrightarrow> s \<noteq> []"
  by (auto simp: read_only_shape_def tokens_def flush_def)

subsection \<open>Verdicts\<close>

lemma validate_accepted:
  assumes "accepted (validate raw av)"
  shows "passes_rules_1_to_4 raw av
    \<and> (if limit_values (tokens (strip_terminator raw)) = []
       then validate raw av = accept (strip_terminator raw @ '' LIMIT 200'') True
       else \<not> list_ex (\<lambda>n. 200 < n) (limit_values (tokens (strip_terminator raw)))
            \<and> validate raw av = accept (strip_terminator raw) False)"
  using assms
  by (auto simp: validate_def passes_rules_1_to_4_def Let_def accept_def reject_def
           split: if_splits)

lemma validate_rules_1_to_4:
  assumes "passes_rules_1_to_4 raw av"
  shows "validate raw av =
     (if limit_values (tokens (strip_terminator raw)) = []
      then accept (strip_terminator raw @ '' LIMIT 200'') True
      else if list_ex (\<lambda>n. 200 < n) (limit_values (tokens (strip_terminator raw)))
      then reject limit_exceeded
      else accept (strip_terminator raw) False)"
  using assms by (simp add: validate_def passes_rules_1_to_4_def Let_def)

lemma passes_fixed:
  assumes "passes_rules_1_to_4 raw av"
  shows "strip_terminator (strip_terminator raw) = strip_terminator raw"
    and "passes_rules_1_to_4 (strip_terminator raw) av"
proof -
  let ?s = "strip_terminator raw"
  from assms have ro: "read_only_shape (tokens ?s)" and semi: "CHR '';'' \<notin> set ?s"
    by (simp_all add: passes_rules_1_to_4_def Let_def)
  from ro have ne: "?s \<noteq> []" by (rule read_only_shape_nonempty)
  from strip_terminator_trimmed[OF ne] ne semi
  show fx: "strip_terminator ?s = ?s" by (simp add: strip_terminator_fixed)
  from assms show "passes_rules_1_to_4 ?s av"
    by (simp add: passes_rules_1_to_4_def Let_def fx)
qed

lemma passes_limit_suffix:
  assumes "passes_rules_1_to_4 raw av"
    and "\<not> dangling_join (tokens (strip_terminator raw)) \<or> ''LIMIT'' \<in> av"
  shows "strip_terminator (strip_terminator raw @ '' LIMIT 200'') = strip_terminator raw @ '' LIMIT 200''"
    and "passes_rules_1_to_4 (strip_terminator raw @ '' LIMIT 200'') av"
proof -
  let ?s = "strip_terminator raw"
  let ?f = "?s @ '' LIMIT 200''"
  from assms(1) have ro: "read_only_shape (tokens ?s)" and semi: "CHR '';'' \<notin> set ?s"
    and fb: "\<not> has_forbidden (tokens ?s)"
    and vw: "list_all (\<lambda>v. v \<in> av) (referenced_views (tokens ?s))"
    by (simp_all add: passes_rules_1_to_4_def Let_def)
  from ro have ne: "?s \<noteq> []" by (rule read_only_shape_nonempty)
  with strip_terminator_trimmed[OF ne] have "\<not> is_space (hd ?f)" by simp
  moreover have "\<not> is_space (last ?f)" by (simp add: is_space_def)
  moreover have "CHR '';'' \<notin> set ?f" using semi by simp
  ultimately show fx: "strip_terminator ?f = ?f" by (simp add: strip_terminator_fixed)
  show "passes_rules_1_to_4 ?f av"
    using semi fb ro vw assms(2)
    by (auto simp: passes_rules_1_to_4_def Let_def fx tokens_limit_suffix has_forbidden_suffix
          read_only_shape_suffix referenced_views_suffix)
qed

text \<open>
  Scope of an accepted verdict, on the model of the specification's validator with rule 4
  read as a purely lexical scan. When \<open>validate\<close> accepts, every identifier that follows \<open>from\<close> or \<open>join\<close> in the
  validated statement is in \<open>allowed_views\<close>; every such identifier of \<open>final_sql\<close> is in
  \<open>allowed_views\<close> or is the appended word \<open>LIMIT\<close>; and all of them are in
  \<open>allowed_views\<close> unless the verdict is a rewrite of a statement that ends with a dangling
  \<open>from\<close> or \<open>join\<close>.
\<close>

lemma views_allowed_unless_dangling:
  assumes "accepted (validate rawSql allowed)"
    and "final_sql (validate rawSql allowed) = Some sql"
  shows "set (referenced_views (tokens (strip_terminator rawSql))) \<subseteq> allowed
    \<and> set (referenced_views (tokens sql)) \<subseteq> allowed \<union> {''LIMIT''}
    \<and> (\<not> (rewritten (validate rawSql allowed) \<and> dangling_join (tokens (strip_terminator rawSql)))
         \<longrightarrow> set (referenced_views (tokens sql)) \<subseteq> allowed)"
proof -
  let ?s = "strip_terminator rawSql"
  from validate_accepted[OF assms(1)] have p: "passes_rules_1_to_4 rawSql allowed"
    and v: "if limit_values (tokens ?s) = []
       then validate rawSql allowed = accept (?s @ '' LIMIT 200'') True
       else validate rawSql allowed = accept ?s False"
    by (simp_all split: if_splits)
  from p have r: "set (referenced_views (tokens ?s)) \<subseteq> allowed"
    by (auto simp: passes_rules_1_to_4_def Let_def list_all_iff)
  show ?thesis
  proof (cases "limit_values (tokens ?s) = []")
    case True
    with v assms(2) have "sql = ?s @ '' LIMIT 200''" "rewritten (validate rawSql allowed)"
      by (simp_all add: accept_def)
    with r show ?thesis
      by (auto simp: tokens_limit_suffix referenced_views_suffix)
  next
    case False
    with v assms(2) have "sql = ?s" by (simp add: accept_def)
    with r show ?thesis by auto
  qed
qed

text \<open>
  The edge of the lexical reading: on a statement cut off after \<open>JOIN\<close> rule 4 finds
  nothing after the last keyword, rule 5 appends the limit, and in \<open>final_sql\<close> the word
  \<open>LIMIT\<close> follows \<open>JOIN\<close>. Whether the validator takes a keyword in that place for
  an identifier is not fixed by the specification.
\<close>

lemma dangling_join_limit_follows:
  "validate ''SELECT amount FROM v_payment_scoped JOIN'' {''v_payment_scoped''}
     = accept ''SELECT amount FROM v_payment_scoped JOIN LIMIT 200'' True
   \<and> referenced_views (tokens ''SELECT amount FROM v_payment_scoped JOIN LIMIT 200'')
     = [''v_payment_scoped'', ''LIMIT'']
   \<and> ''LIMIT'' \<notin> {''v_payment_scoped''}"
  by code_simp

lemma views_allowed_example:
  "validate ''SELECT amount FROM v_payment_scoped'' {''v_payment_scoped''}
     = accept ''SELECT amount FROM v_payment_scoped LIMIT 200'' True
   \<and> set (referenced_views (tokens ''SELECT amount FROM v_payment_scoped LIMIT 200''))
       \<subseteq> {''v_payment_scoped''}"
proof -
  have v: "validate ''SELECT amount FROM v_payment_scoped'' {''v_payment_scoped''}
     = accept ''SELECT amount FROM v_payment_scoped LIMIT 200'' True"
    by code_simp
  have d: "\<not> dangling_join (tokens (strip_terminator ''SELECT amount FROM v_payment_scoped''))"
    by code_simp
  from views_allowed_unless_dangling[of "''SELECT amount FROM v_payment_scoped''" "{''v_payment_scoped''}"
      "''SELECT amount FROM v_payment_scoped LIMIT 200''"] v d
  have "set (referenced_views (tokens ''SELECT amount FROM v_payment_scoped LIMIT 200''))
       \<subseteq> {''v_payment_scoped''}"
    by (simp add: accept_def)
  with v show ?thesis by blast
qed

text \<open>
  C2, on the model of the specification's validator. When \<open>validate\<close> accepts,
  \<open>final_sql\<close> has a \<open>limit\<close> clause and every \<open>limit\<close> value in it is at most 200. A
  statement that passes rules 1 to 4 and has no \<open>limit\<close> is accepted with \<open>LIMIT 200\<close>
  appended and \<open>rewritten = true\<close>. A statement with a \<open>limit\<close> above 200 is never
  accepted, and when it passes rules 1 to 4 (the rules are applied in order, and the first
  violation names the reason) the verdict is the rejection \<open>limit_exceeded\<close>.
\<close>

theorem limit_invariant:
  "(accepted (validate rawSql allowed) \<longrightarrow>
      (\<exists>sql. final_sql (validate rawSql allowed) = Some sql
         \<and> limit_values (tokens sql) \<noteq> []
         \<and> list_all (\<lambda>n. n \<le> 200) (limit_values (tokens sql))))
   \<and> (passes_rules_1_to_4 rawSql allowed
        \<and> limit_values (tokens (strip_terminator rawSql)) = [] \<longrightarrow>
      validate rawSql allowed = accept (strip_terminator rawSql @ '' LIMIT 200'') True)
   \<and> (list_ex (\<lambda>n. 200 < n) (limit_values (tokens (strip_terminator rawSql))) \<longrightarrow>
      \<not> accepted (validate rawSql allowed)
      \<and> (passes_rules_1_to_4 rawSql allowed \<longrightarrow> validate rawSql allowed = reject limit_exceeded))"
proof (intro conjI impI)
  let ?s = "strip_terminator rawSql"
  assume a: "accepted (validate rawSql allowed)"
  show "\<exists>sql. final_sql (validate rawSql allowed) = Some sql
         \<and> limit_values (tokens sql) \<noteq> []
         \<and> list_all (\<lambda>n. n \<le> 200) (limit_values (tokens sql))"
  proof (cases "limit_values (tokens ?s) = []")
    case True
    with validate_accepted[OF a]
    have "validate rawSql allowed = accept (?s @ '' LIMIT 200'') True" by simp
    with True show ?thesis
      by (simp add: accept_def tokens_limit_suffix limit_values_suffix)
  next
    case False
    with validate_accepted[OF a]
    have "\<not> list_ex (\<lambda>n. 200 < n) (limit_values (tokens ?s))"
      and "validate rawSql allowed = accept ?s False" by simp_all
    with False show ?thesis
      by (auto simp: accept_def list_all_iff list_ex_iff not_less)
  qed
next
  assume "passes_rules_1_to_4 rawSql allowed
        \<and> limit_values (tokens (strip_terminator rawSql)) = []"
  then show "validate rawSql allowed = accept (strip_terminator rawSql @ '' LIMIT 200'') True"
    by (simp add: validate_rules_1_to_4)
next
  assume e: "list_ex (\<lambda>n. 200 < n) (limit_values (tokens (strip_terminator rawSql)))"
  then have ne: "limit_values (tokens (strip_terminator rawSql)) \<noteq> []" by auto
  show "\<not> accepted (validate rawSql allowed)"
  proof
    assume "accepted (validate rawSql allowed)"
    from validate_accepted[OF this] e ne show False by simp
  qed
  show "validate rawSql allowed = reject limit_exceeded" if "passes_rules_1_to_4 rawSql allowed"
    using that e ne by (simp add: validate_rules_1_to_4)
qed

theorem limit_invariant_witness:
  "validate ''SELECT amount FROM v_payment_scoped'' {''v_payment_scoped''}
     = accept ''SELECT amount FROM v_payment_scoped LIMIT 200'' True
   \<and> limit_values (tokens ''SELECT amount FROM v_payment_scoped LIMIT 200'') = [200]
   \<and> validate ''SELECT count(*) FROM v_rental_scoped LIMIT 5000'' {''v_rental_scoped''}
     = reject limit_exceeded"
proof -
  have p1: "passes_rules_1_to_4 ''SELECT amount FROM v_payment_scoped'' {''v_payment_scoped''}
      \<and> limit_values (tokens (strip_terminator ''SELECT amount FROM v_payment_scoped'')) = []"
    by code_simp
  have s1: "strip_terminator ''SELECT amount FROM v_payment_scoped'' @ '' LIMIT 200''
      = ''SELECT amount FROM v_payment_scoped LIMIT 200''"
    by code_simp
  have l1: "limit_values (tokens ''SELECT amount FROM v_payment_scoped LIMIT 200'') = [200]"
    by code_simp
  have p2: "passes_rules_1_to_4 ''SELECT count(*) FROM v_rental_scoped LIMIT 5000'' {''v_rental_scoped''}"
    and e2: "list_ex (\<lambda>n. 200 < n)
       (limit_values (tokens (strip_terminator ''SELECT count(*) FROM v_rental_scoped LIMIT 5000'')))"
    by code_simp+
  from limit_invariant[of "''SELECT amount FROM v_payment_scoped''" "{''v_payment_scoped''}"] p1 s1
  have "validate ''SELECT amount FROM v_payment_scoped'' {''v_payment_scoped''}
     = accept ''SELECT amount FROM v_payment_scoped LIMIT 200'' True"
    by simp
  moreover
  from limit_invariant[of "''SELECT count(*) FROM v_rental_scoped LIMIT 5000''" "{''v_rental_scoped''}"]
    p2 e2
  have "validate ''SELECT count(*) FROM v_rental_scoped LIMIT 5000'' {''v_rental_scoped''}
     = reject limit_exceeded"
    by blast
  ultimately show ?thesis using l1 by blast
qed

text \<open>
  Validating again, on the model of the specification's validator with rule 4 read as a
  purely lexical scan. When \<open>validate\<close> accepts and the verdict is not a rewrite of a statement that ends with a
  dangling \<open>from\<close> or \<open>join\<close>, validating \<open>final_sql\<close> again with the same allowed views
  accepts it unchanged, with \<open>rewritten = false\<close>.
\<close>

lemma revalidation_unless_dangling:
  assumes "accepted (validate rawSql allowed)"
    and "final_sql (validate rawSql allowed) = Some sql"
    and "\<not> (rewritten (validate rawSql allowed)
            \<and> dangling_join (tokens (strip_terminator rawSql)))"
  shows "validate sql allowed = accept sql False"
proof -
  let ?s = "strip_terminator rawSql"
  from validate_accepted[OF assms(1)] have p: "passes_rules_1_to_4 rawSql allowed"
    and v: "if limit_values (tokens ?s) = []
       then validate rawSql allowed = accept (?s @ '' LIMIT 200'') True
       else \<not> list_ex (\<lambda>n. 200 < n) (limit_values (tokens ?s))
            \<and> validate rawSql allowed = accept ?s False"
    by simp_all
  show ?thesis
  proof (cases "limit_values (tokens ?s) = []")
    case True
    with v have w: "validate rawSql allowed = accept (?s @ '' LIMIT 200'') True" by simp
    with assms(2) have sql: "sql = ?s @ '' LIMIT 200''" by (simp add: accept_def)
    from w assms(3) have d: "\<not> dangling_join (tokens ?s) \<or> ''LIMIT'' \<in> allowed"
      by (simp add: accept_def)
    from passes_limit_suffix[OF p d]
    have "strip_terminator sql = sql" and "passes_rules_1_to_4 sql allowed"
      by (simp_all add: sql)
    then show ?thesis
      by (simp add: validate_rules_1_to_4 sql tokens_limit_suffix limit_values_suffix True)
  next
    case False
    with v have n: "\<not> list_ex (\<lambda>n. 200 < n) (limit_values (tokens ?s))"
      and "validate rawSql allowed = accept ?s False" by simp_all
    with assms(2) have sql: "sql = ?s" by (simp add: accept_def)
    from passes_fixed[OF p]
    have "strip_terminator sql = sql" and "passes_rules_1_to_4 sql allowed"
      by (simp_all add: sql)
    then show ?thesis
      using False n by (simp add: validate_rules_1_to_4 sql)
  qed
qed

text \<open>
  The same edge: a statement cut off after \<open>JOIN\<close> is accepted with the limit appended,
  and under the lexical reading the second validation takes \<open>LIMIT\<close> for a view that is
  not allowed.
\<close>

lemma dangling_join_revalidation:
  "validate ''SELECT amount FROM v_payment_scoped JOIN'' {''v_payment_scoped''}
     = accept ''SELECT amount FROM v_payment_scoped JOIN LIMIT 200'' True
   \<and> validate ''SELECT amount FROM v_payment_scoped JOIN LIMIT 200'' {''v_payment_scoped''}
     = reject view_not_allowed"
  by code_simp

lemma revalidation_example:
  "validate ''SELECT amount FROM v_payment_scoped;'' {''v_payment_scoped''}
     = accept ''SELECT amount FROM v_payment_scoped LIMIT 200'' True
   \<and> validate ''SELECT amount FROM v_payment_scoped LIMIT 200'' {''v_payment_scoped''}
     = accept ''SELECT amount FROM v_payment_scoped LIMIT 200'' False"
proof -
  have v: "validate ''SELECT amount FROM v_payment_scoped;'' {''v_payment_scoped''}
     = accept ''SELECT amount FROM v_payment_scoped LIMIT 200'' True"
    by code_simp
  have d: "\<not> dangling_join (tokens (strip_terminator ''SELECT amount FROM v_payment_scoped;''))"
    by code_simp
  have "validate ''SELECT amount FROM v_payment_scoped LIMIT 200'' {''v_payment_scoped''}
     = accept ''SELECT amount FROM v_payment_scoped LIMIT 200'' False"
    by (rule revalidation_unless_dangling[of "''SELECT amount FROM v_payment_scoped;''"])
       (simp_all add: v d accept_def)
  with v show ?thesis by blast
qed

section \<open>Properties of the generation stage\<close>

lemma scenario_E:
  "fst (generate always_timeout example_parse ''primary'' [''fallback-1'', ''fallback-2''] ''q'')
     = Inl generation_exhausted"
  by (simp add: generate_def always_timeout_def classify_def attempt_of_def)

lemma classify_success: "(snd (classify parse c) = None) = (fst (classify parse c) \<noteq> success)"
  by (cases c) (auto simp: classify_def split: option.splits)

lemma try_candidates_step:
  "try_candidates p parse prompt n (m # ms) =
     (if outcome (attempt_of p parse prompt n m) = success
      then ([attempt_of p parse prompt n m], snd (classify parse (completion (p n prompt m))))
      else (attempt_of p parse prompt n m # fst (try_candidates p parse prompt (Suc n) ms),
            snd (try_candidates p parse prompt (Suc n) ms)))"
proof (cases "snd (classify parse (completion (p n prompt m)))")
  case None
  then have "outcome (attempt_of p parse prompt n m) \<noteq> success"
    by (simp add: attempt_of_def classify_success)
  with None show ?thesis
    by (simp split: prod.splits)
next
  case (Some g)
  then have "outcome (attempt_of p parse prompt n m) = success"
    using classify_success[of parse "completion (p n prompt m)"] by (simp add: attempt_of_def)
  with Some show ?thesis
    by simp
qed

lemma try_candidates_length:
  "length (fst (try_candidates p parse prompt n ms)) \<le> length ms"
  by (induction ms arbitrary: n) (simp_all add: try_candidates_step del: try_candidates.simps(2))

lemma try_candidates_names:
  "map model_name (fst (try_candidates p parse prompt n ms))
     = take (length (fst (try_candidates p parse prompt n ms))) ms"
  by (induction ms arbitrary: n)
     (simp_all add: try_candidates_step attempt_of_def del: try_candidates.simps(2))

lemma try_candidates_success_last:
  "i < length (fst (try_candidates p parse prompt n ms)) \<Longrightarrow>
   outcome (fst (try_candidates p parse prompt n ms) ! i) = success \<Longrightarrow>
   Suc i = length (fst (try_candidates p parse prompt n ms))"
proof (induction ms arbitrary: n i)
  case Nil
  then show ?case by simp
next
  case (Cons m ms)
  show ?case
  proof (cases "outcome (attempt_of p parse prompt n m) = success")
    case True
    with Cons.prems show ?thesis
      by (simp add: try_candidates_step del: try_candidates.simps(2))
  next
    case False
    with Cons.prems obtain j where "i = Suc j"
      by (cases i) (simp_all add: try_candidates_step del: try_candidates.simps(2))
    with False Cons.prems Cons.IH[of j "Suc n"] show ?thesis
      by (simp add: try_candidates_step del: try_candidates.simps(2))
  qed
qed

lemma try_candidates_found:
  "snd (try_candidates p parse prompt n ms) = Some g \<Longrightarrow>
   fst (try_candidates p parse prompt n ms) \<noteq> []
   \<and> outcome (last (fst (try_candidates p parse prompt n ms))) = success"
proof (induction ms arbitrary: n)
  case Nil
  then show ?case by simp
next
  case (Cons m ms)
  show ?case
  proof (cases "outcome (attempt_of p parse prompt n m) = success")
    case True
    then show ?thesis by (simp add: try_candidates_step del: try_candidates.simps(2))
  next
    case False
    with Cons.prems have "snd (try_candidates p parse prompt (Suc n) ms) = Some g"
      by (simp add: try_candidates_step del: try_candidates.simps(2))
    from Cons.IH[OF this] False show ?thesis
      by (simp add: try_candidates_step del: try_candidates.simps(2))
  qed
qed

lemma try_candidates_exhausted:
  "snd (try_candidates p parse prompt n ms) = None \<Longrightarrow>
   length (fst (try_candidates p parse prompt n ms)) = length ms
   \<and> list_all (\<lambda>a. outcome a \<noteq> success) (fst (try_candidates p parse prompt n ms))"
proof (induction ms arbitrary: n)
  case Nil
  then show ?case by simp
next
  case (Cons m ms)
  show ?case
  proof (cases "outcome (attempt_of p parse prompt n m) = success")
    case True
    with Cons.prems show ?thesis
      using classify_success[of parse "completion (p n prompt m)"]
      by (simp add: try_candidates_step attempt_of_def del: try_candidates.simps(2))
  next
    case False
    with Cons.prems have "snd (try_candidates p parse prompt (Suc n) ms) = None"
      by (simp add: try_candidates_step del: try_candidates.simps(2))
    from Cons.IH[OF this] False show ?thesis
      by (simp add: try_candidates_step del: try_candidates.simps(2))
  qed
qed

text \<open>
  C8, on the model of the specification's generation stage. In every run of \<open>generate\<close>
  over the primary model and its fallbacks, the attempts are at most as many as the
  candidates (one primary plus the fallbacks), they follow the candidates in order, one
  attempt each, and an attempt that succeeds is the last one: no model is attempted after
  a success. The run returns the parsed SQL exactly when its last attempt succeeded;
  otherwise every candidate was attempted and failed.
\<close>

theorem fallback_monotone:
  assumes "generate p parse primary fallbacks prompt = (result, attempts)"
  shows "length attempts \<le> 1 + length fallbacks
    \<and> map model_name attempts = take (length attempts) (primary # fallbacks)
    \<and> (\<forall>i < length attempts. outcome (attempts ! i) = success \<longrightarrow> Suc i = length attempts)
    \<and> (case result of
         Inr g \<Rightarrow> attempts \<noteq> [] \<and> outcome (last attempts) = success
       | Inl e \<Rightarrow> length attempts = 1 + length fallbacks
                 \<and> list_all (\<lambda>a. outcome a \<noteq> success) attempts)"
proof -
  let ?t = "try_candidates p parse prompt 0 (primary # fallbacks)"
  from assms have eq: "attempts = fst ?t"
    and r: "result = (case snd ?t of Some g \<Rightarrow> Inr g | None \<Rightarrow> Inl generation_exhausted)"
    by (auto simp: generate_def split: prod.splits option.splits)
  have 1: "length attempts \<le> 1 + length fallbacks"
    using try_candidates_length[of p parse prompt 0 "primary # fallbacks"] by (simp add: eq)
  have 2: "map model_name attempts = take (length attempts) (primary # fallbacks)"
    unfolding eq by (rule try_candidates_names)
  have 3: "\<forall>i < length attempts. outcome (attempts ! i) = success \<longrightarrow> Suc i = length attempts"
    unfolding eq using try_candidates_success_last by blast
  have 4: "case result of
         Inr g \<Rightarrow> attempts \<noteq> [] \<and> outcome (last attempts) = success
       | Inl e \<Rightarrow> length attempts = 1 + length fallbacks
                 \<and> list_all (\<lambda>a. outcome a \<noteq> success) attempts"
  proof (cases "snd ?t")
    case None
    from try_candidates_exhausted[OF this] None r show ?thesis by (simp add: eq)
  next
    case (Some g)
    from try_candidates_found[OF this] Some r show ?thesis by (simp add: eq)
  qed
  from 1 2 3 4 show ?thesis by blast
qed

theorem fallback_monotone_witness:
  "generate second_answers example_parse ''primary'' [''fallback-1'', ''fallback-2''] ''q''
     = (Inr \<lparr>raw_text = ''SELECT 1'', intent = ''metric''\<rparr>,
        [\<lparr>model_name = ''primary'', started_at = 0, duration_ms = 120,
          outcome = rate_limited, token_usage = 7\<rparr>,
         \<lparr>model_name = ''fallback-1'', started_at = 1, duration_ms = 120,
          outcome = success, token_usage = 7\<rparr>])
   \<and> length [\<lparr>model_name = ''primary'', started_at = 0, duration_ms = 120,
          outcome = rate_limited, token_usage = 7\<rparr>,
         \<lparr>model_name = ''fallback-1'', started_at = 1, duration_ms = 120,
          outcome = success, token_usage = 7\<rparr>]
       \<le> 1 + length [''fallback-1'', ''fallback-2'']"
proof -
  have g: "generate second_answers example_parse ''primary'' [''fallback-1'', ''fallback-2''] ''q''
     = (Inr \<lparr>raw_text = ''SELECT 1'', intent = ''metric''\<rparr>,
        [\<lparr>model_name = ''primary'', started_at = 0, duration_ms = 120,
          outcome = rate_limited, token_usage = 7\<rparr>,
         \<lparr>model_name = ''fallback-1'', started_at = 1, duration_ms = 120,
          outcome = success, token_usage = 7\<rparr>])"
    by code_simp
  from fallback_monotone[OF g] have "length [\<lparr>model_name = ''primary'', started_at = 0, duration_ms = 120,
          outcome = rate_limited, token_usage = 7\<rparr>,
         \<lparr>model_name = ''fallback-1'', started_at = 1, duration_ms = 120,
          outcome = success, token_usage = 7\<rparr>]
       \<le> 1 + length [''fallback-1'', ''fallback-2'']" by (rule conjunct1)
  with g show ?thesis by (rule conjI)
qed

end
